theory Spec2Isabelle
  imports Main
begin

section \<open>JavaScript values\<close>

text \<open>
  The slice helper of \<^verbatim>\<open>src/create-enhanced-slice.ts\<close> works on untyped JavaScript
  values: seed objects, the container state, action payloads. They are embedded as one
  datatype. An object is the list of its own properties in enumeration order; a number
  is an integer (page numbers and lengths are the only numbers the code inspects, so
  fractions and NaN are left out). The only functions that occur are the built-in
  methods an object literal inherits from \<^verbatim>\<open>Object.prototype\<close>, held by name; symbols
  do not occur.
\<close>

datatype jsval =
    JUndefined
  | JNull
  | JBool bool
  | JNum int
  | JStr string
  | JArr "jsval list"
  | JObj "(string \<times> jsval) list"
  | JFun string

type_synonym jsobj = "(string \<times> jsval) list"

text \<open>
  What a handler can throw. The module is an ES module, hence strict code: reading a
  property of \<^verbatim>\<open>undefined\<close> or \<^verbatim>\<open>null\<close>, assigning a property of a primitive and
  spreading a value that is not iterable all raise a TypeError. \<open>Unmodelled\<close> marks the
  one step whose JavaScript result the datatype cannot hold: storing a named property on
  an array or on a function.
\<close>

datatype js_error = TypeError | Unmodelled

fun js_typeof :: "jsval \<Rightarrow> string" where
  "js_typeof JUndefined = ''undefined''"
| "js_typeof JNull = ''object''"
| "js_typeof (JBool b) = ''boolean''"
| "js_typeof (JNum n) = ''number''"
| "js_typeof (JStr s) = ''string''"
| "js_typeof (JArr xs) = ''object''"
| "js_typeof (JObj kvs) = ''object''"
| "js_typeof (JFun f) = ''function''"

fun truthy :: "jsval \<Rightarrow> bool" where
  "truthy JUndefined = False"
| "truthy JNull = False"
| "truthy (JBool b) = b"
| "truthy (JNum n) = (n \<noteq> 0)"
| "truthy (JStr s) = (s \<noteq> [])"
| "truthy (JArr xs) = True"
| "truthy (JObj kvs) = True"
| "truthy (JFun f) = True"

fun is_array :: "jsval \<Rightarrow> bool" where
  "is_array (JArr xs) = True"
| "is_array v = False"

fun is_nullish :: "jsval \<Rightarrow> bool" where
  "is_nullish JUndefined = True"
| "is_nullish JNull = True"
| "is_nullish v = False"

fun is_reference :: "jsval \<Rightarrow> bool" where
  "is_reference (JArr xs) = True"
| "is_reference (JObj kvs) = True"
| "is_reference (JFun f) = True"
| "is_reference v = False"

text \<open>
  \<^verbatim>\<open>a === b\<close>: primitives are compared by value. Two object, array or function operands
  are compared by reference; the operands the source compares with \<^verbatim>\<open>===\<close> (an enum value
  against a key, a page against \<^verbatim>\<open>1\<close> or against a page already known to be a string)
  always have a primitive on one side, so a reference operand makes the test false.
\<close>

definition strict_eq :: "jsval \<Rightarrow> jsval \<Rightarrow> bool" where
  "strict_eq a b = (if is_reference a then False else a = b)"

subsection \<open>Objects\<close>

text \<open>
  \<^verbatim>\<open>o[k]\<close> among the own properties of an object: the property's value, \<^verbatim>\<open>undefined\<close>
  when it is absent. This is the whole lookup on an object without a prototype: the
  accumulators of the two reducers (\<^verbatim>\<open>Object.create(null)\<close>), hence the derived state,
  the enum table and the container state the slice starts from.
\<close>

definition obj_get :: "jsobj \<Rightarrow> string \<Rightarrow> jsval" where
  "obj_get kvs k = (case map_of kvs k of None \<Rightarrow> JUndefined | Some v \<Rightarrow> v)"

text \<open>
  \<^verbatim>\<open>o[k] = v\<close>: an existing property keeps its place, a new one is added last
  (the order in which \<^verbatim>\<open>Object.keys\<close> lists keys that are not array indices).
\<close>

primrec obj_set :: "jsobj \<Rightarrow> string \<Rightarrow> jsval \<Rightarrow> jsobj" where
  "obj_set [] k v = [(k, v)]"
| "obj_set (p # ps) k v = (if fst p = k then (k, v) # ps else p # obj_set ps k v)"

text \<open>
  \<^verbatim>\<open>Object.keys(o)\<close>: the own keys in enumeration order. JavaScript lists keys that are
  array indices before the others; the statements below are about lookups in the objects
  built from these keys, which do not depend on that order.
\<close>

definition object_keys :: "jsobj \<Rightarrow> string list" where
  "object_keys kvs = map fst kvs"

text \<open>
  \<^verbatim>\<open>v.p\<close> on a value that is neither \<^verbatim>\<open>undefined\<close> nor \<^verbatim>\<open>null\<close>, for the property
  names the source writes out (\<^verbatim>\<open>results\<close>, \<^verbatim>\<open>page\<close>, \<^verbatim>\<open>errors\<close>, \<^verbatim>\<open>isLoading\<close>,
  \<^verbatim>\<open>hasMore\<close>, \<^verbatim>\<open>data\<close>, \<^verbatim>\<open>_queryType\<close>, \<^verbatim>\<open>length\<close>). None of them is a property of
  \<^verbatim>\<open>Object.prototype\<close>, so on an object the own properties decide; of the inherited
  properties only \<^verbatim>\<open>length\<close> of arrays and strings is read. The one lookup under a
  computed name on an object with a prototype is \<^verbatim>\<open>record[key]\<close> in \<^verbatim>\<open>processKeys\<close>,
  modelled by \<open>literal_get\<close> below. A function arises only as a value of the enum table,
  and the source reads no property of a table value.
\<close>

fun member :: "jsval \<Rightarrow> string \<Rightarrow> jsval" where
  "member (JObj kvs) p = obj_get kvs p"
| "member (JArr xs) p = (if p = ''length'' then JNum (int (length xs)) else JUndefined)"
| "member (JStr s) p = (if p = ''length'' then JNum (int (length s)) else JUndefined)"
| "member v p = JUndefined"

text \<open>\<^verbatim>\<open>v.p\<close>: throws on \<^verbatim>\<open>undefined\<close> and \<^verbatim>\<open>null\<close>.\<close>

definition get_prop :: "jsval \<Rightarrow> string \<Rightarrow> js_error + jsval" where
  "get_prop v p = (if is_nullish v then Inl TypeError else Inr (member v p))"

text \<open>\<^verbatim>\<open>v?.p\<close>: \<^verbatim>\<open>undefined\<close> on \<^verbatim>\<open>undefined\<close> and \<^verbatim>\<open>null\<close>.\<close>

definition opt_prop :: "jsval \<Rightarrow> string \<Rightarrow> jsval" where
  "opt_prop v p = (if is_nullish v then JUndefined else member v p)"

text \<open>\<^verbatim>\<open>v.p = x\<close> in strict code; the result is the receiver after the assignment.\<close>

fun set_field :: "jsval \<Rightarrow> string \<Rightarrow> jsval \<Rightarrow> js_error + jsval" where
  "set_field (JObj kvs) p x = Inr (JObj (obj_set kvs p x))"
| "set_field (JArr xs) p x = Inl Unmodelled"
| "set_field (JFun f) p x = Inl Unmodelled"
| "set_field v p x = Inl TypeError"

text \<open>\<^verbatim>\<open>[...v]\<close>: arrays and strings are iterable, nothing else of the datatype is.\<close>

fun spread :: "jsval \<Rightarrow> js_error + jsval list" where
  "spread (JArr xs) = Inr xs"
| "spread (JStr s) = Inr (map (\<lambda>c. JStr [c]) s)"
| "spread v = Inl TypeError"

text \<open>Sequencing of steps that may throw.\<close>

definition bind :: "js_error + 'a \<Rightarrow> ('a \<Rightarrow> js_error + 'b) \<Rightarrow> js_error + 'b" where
  "bind m f = (case m of Inl e \<Rightarrow> Inl e | Inr x \<Rightarrow> f x)"

subsection \<open>Property keys\<close>

text \<open>
  A value used as a property key (\<^verbatim>\<open>state[key]\<close>, \<^verbatim>\<open>accumulator[modifiedKey]\<close>) is
  converted to a string first.
\<close>

fun show_nat :: "nat \<Rightarrow> string" where
  "show_nat n =
     (if n < 10 then [''0123456789'' ! n]
      else show_nat (n div 10) @ [''0123456789'' ! (n mod 10)])"

definition show_int :: "int \<Rightarrow> string" where
  "show_int i = (if i < 0 then CHR ''-'' # show_nat (nat (- i)) else show_nat (nat i))"

fun join_comma :: "string list \<Rightarrow> string" where
  "join_comma [] = []"
| "join_comma [s] = s"
| "join_comma (s # t # ss) = s @ '','' @ join_comma (t # ss)"

fun prop_key :: "jsval \<Rightarrow> string" where
  "prop_key JUndefined = ''undefined''"
| "prop_key JNull = ''null''"
| "prop_key (JBool b) = (if b then ''true'' else ''false'')"
| "prop_key (JNum n) = show_int n"
| "prop_key (JStr s) = s"
| "prop_key (JArr xs) = join_comma (map (\<lambda>x. if is_nullish x then [] else prop_key x) xs)"
| "prop_key (JObj kvs) = ''[object Object]''"
| "prop_key (JFun f) = ''function '' @ f @ ''() { [native code] }''"

subsection \<open>Object literals and their prototype\<close>

text \<open>
  An object written as a literal has the prototype \<^verbatim>\<open>Object.prototype\<close>: a lookup that
  finds no own property answers with the inherited one. These are the properties of
  \<^verbatim>\<open>Object.prototype\<close>: its methods, and the accessor \<^verbatim>\<open>__proto__\<close>, which yields the
  prototype object itself.
\<close>

definition object_prototype :: jsobj where
  "object_prototype =
     [(''constructor'', JFun ''Object''),
      (''__defineGetter__'', JFun ''__defineGetter__''),
      (''__defineSetter__'', JFun ''__defineSetter__''),
      (''hasOwnProperty'', JFun ''hasOwnProperty''),
      (''__lookupGetter__'', JFun ''__lookupGetter__''),
      (''__lookupSetter__'', JFun ''__lookupSetter__''),
      (''isPrototypeOf'', JFun ''isPrototypeOf''),
      (''propertyIsEnumerable'', JFun ''propertyIsEnumerable''),
      (''toString'', JFun ''toString''),
      (''valueOf'', JFun ''valueOf''),
      (''toLocaleString'', JFun ''toLocaleString'')]"


definition inherited :: "string \<Rightarrow> jsval" where
  "inherited p = (if p = ''__proto__'' then JObj object_prototype else obj_get object_prototype p)"

text \<open>\<^verbatim>\<open>o[k]\<close> on an object literal: the own property, else the inherited one.\<close>

definition literal_get :: "jsobj \<Rightarrow> string \<Rightarrow> jsval" where
  "literal_get kvs k = (case map_of kvs k of None \<Rightarrow> inherited k | Some v \<Rightarrow> v)"

section \<open>The key namespacer\<close>

text \<open>
  \<^verbatim>\<open>sliceString\<close> is imported from \<^verbatim>\<open>./utils\<close>, which is not among the source files.
  Every function below that calls it takes it as the parameter \<open>ns\<close>, and the general
  theorems hold for every namespacer that meets the hypotheses they state.
\<close>

type_synonym namespacer = "string \<Rightarrow> string \<Rightarrow> string"

definition upper_char :: "char \<Rightarrow> char" where
  "upper_char c =
     (case map_of (zip ''abcdefghijklmnopqrstuvwxyz'' ''ABCDEFGHIJKLMNOPQRSTUVWXYZ'') c of
        None \<Rightarrow> c | Some u \<Rightarrow> u)"

fun capitalize :: "string \<Rightarrow> string" where
  "capitalize [] = []"
| "capitalize (c # cs) = upper_char c # cs"

definition sliceString :: namespacer where
  \<comment> \<open>Modelled from the spec: \<^verbatim>\<open>sliceString\<close> of \<^verbatim>\<open>./utils\<close> is missing from the sources.
      The spec asks for a deterministic combination of the container name and the base
      key into one identifier, injective in the base key; the doc comment of
      \<^verbatim>\<open>sliceCreator\<close> names the selectors of container \<^verbatim>\<open>users\<close> \<^verbatim>\<open>selectUsersUsers\<close> and
      \<^verbatim>\<open>selectUsersUser\<close>. This instance appends the capitalised base key to the name. It
      is used for concrete evaluations only.\<close>
  "sliceString name key = name @ capitalize key"

section \<open>The initial state deriver\<close>

text \<open>
  \<^verbatim>\<open>createInitialStateSlice(state, name, ignoreDefaultReducers)\<close> reduces the keys of the
  seed with \<^verbatim>\<open>createSliceState\<close>, starting from an empty object. An omitted third
  argument is \<^verbatim>\<open>undefined\<close>.
\<close>

definition envelope :: "jsval \<Rightarrow> jsval" where
  "envelope v =
     JObj [(''results'', v), (''isLoading'', JBool False), (''hasMore'', JBool True),
           (''page'', JNum 0), (''errors'', JNull)]"

definition createSliceState ::
  "namespacer \<Rightarrow> jsobj \<Rightarrow> string \<Rightarrow> jsval \<Rightarrow> jsobj \<Rightarrow> string \<Rightarrow> jsobj" where
  "createSliceState ns state name ignoreDefaultReducers accumulator key =
     (if truthy ignoreDefaultReducers
         \<or> js_typeof (obj_get state key) \<in> set [''number'', ''string'', ''boolean'']
      then obj_set accumulator (ns name key) (obj_get state key)
      else obj_set accumulator (ns name key) (envelope (obj_get state key)))"

definition createInitialStateSlice ::
  "namespacer \<Rightarrow> jsobj \<Rightarrow> string \<Rightarrow> jsval \<Rightarrow> jsobj" where
  "createInitialStateSlice ns state name ignoreDefaultReducers =
     foldl (createSliceState ns state name ignoreDefaultReducers) [] (object_keys state)"

text \<open>
  What \<^verbatim>\<open>createSliceState\<close> stores for a seed value: the two branches of its test, as a
  function of the value alone.
\<close>

definition slice_value :: "jsval \<Rightarrow> jsval \<Rightarrow> jsval" where
  "slice_value ignoreDefaultReducers v =
     (if truthy ignoreDefaultReducers then v
      else if js_typeof v \<in> set [''number'', ''string'', ''boolean''] then v
      else envelope v)"

section \<open>The bidirectional enum builder\<close>

text \<open>
  \<^verbatim>\<open>createEnumObject(obj, initialKey, name)\<close>. \<^verbatim>\<open>modifiedKeys\<close> holds one single-property
  record per key of \<^verbatim>\<open>initialKey\<close>; \<^verbatim>\<open>processKeys\<close> looks, for a key of \<^verbatim>\<open>obj\<close>, for the
  first record with a truthy property of that name and writes two entries of the table.
  The records are object literals, so \<^verbatim>\<open>record[key]\<close> also answers the names inherited
  from \<^verbatim>\<open>Object.prototype\<close>; the table itself starts from \<^verbatim>\<open>Object.create(null)\<close>.
\<close>

definition createModifiedKeys :: "namespacer \<Rightarrow> string \<Rightarrow> string \<Rightarrow> jsobj" where
  "createModifiedKeys ns name key = [(ns name key, JStr key)]"

definition processKeys :: "jsobj list \<Rightarrow> jsobj \<Rightarrow> string \<Rightarrow> jsobj" where
  "processKeys modifiedKeys accumulator key =
     (let modifiedKey =
            (case find (\<lambda>record. truthy (literal_get record key)) modifiedKeys of
               None \<Rightarrow> JUndefined
             | Some record \<Rightarrow> literal_get record key)
      in obj_set (obj_set accumulator key modifiedKey) (prop_key modifiedKey) (JStr key))"

definition createEnumObject :: "namespacer \<Rightarrow> jsobj \<Rightarrow> jsobj \<Rightarrow> string \<Rightarrow> jsobj" where
  "createEnumObject ns obj initialKey name =
     foldl (processKeys (map (createModifiedKeys ns name) (object_keys initialKey))) []
       (object_keys obj)"

text \<open>
  \<^verbatim>\<open>getKeyFromEnumValue(enumObject, value)\<close>: the key of the first entry whose value is
  \<^verbatim>\<open>value\<close>, \<^verbatim>\<open>undefined\<close> when there is none.
\<close>

definition getKeyFromEnumValue :: "jsobj \<Rightarrow> jsval \<Rightarrow> jsval" where
  "getKeyFromEnumValue enumObject v =
     (case find (\<lambda>entry. strict_eq (snd entry) v) enumObject of
        None \<Rightarrow> JUndefined
      | Some entry \<Rightarrow> JStr (fst entry))"

text \<open>
  The table \<^verbatim>\<open>sliceCreator\<close> builds: the enum of the derived state (derived with the
  caller's \<^verbatim>\<open>ignoreDefaultReducers\<close>) against the seed. The state the slice starts from
  is derived without the third argument.
\<close>

definition queryTypeEnums :: "namespacer \<Rightarrow> string \<Rightarrow> jsobj \<Rightarrow> jsval \<Rightarrow> jsobj" where
  "queryTypeEnums ns name initialState ignoreDefaultReducers =
     createEnumObject ns (createInitialStateSlice ns initialState name ignoreDefaultReducers)
       initialState name"

definition sliceInitialState :: "namespacer \<Rightarrow> string \<Rightarrow> jsobj \<Rightarrow> jsobj" where
  "sliceInitialState ns name initialState =
     createInitialStateSlice ns initialState name JUndefined"

section \<open>The mutation handlers\<close>

text \<open>
  A handler receives the container state (an Immer draft it mutates in place) and an
  action; the model returns the state after the handler, or the exception it throws.
  \<^verbatim>\<open>newState = state[key]\<close> is an alias of the stored sub-state: the model computes the
  sub-state after the handler's assignments and stores it back under the key. When the
  key is absent \<^verbatim>\<open>newState\<close> is \<^verbatim>\<open>undefined\<close>, every assignment through it throws, and a
  handler that finishes has left the state as it was. Console diagnostics
  (\<^verbatim>\<open>createDebuggingMessage\<close>) never touch the state and are left out.
\<close>

definition write_back :: "jsobj \<Rightarrow> string \<Rightarrow> jsval \<Rightarrow> jsobj" where
  "write_back state k sub =
     (case map_of state k of None \<Rightarrow> state | Some old \<Rightarrow> obj_set state k sub)"

record action =
  originalArgs :: jsval
  payload :: jsval

fun array_length :: "jsval \<Rightarrow> nat" where
  "array_length (JArr xs) = length xs"
| "array_length v = 0"

text \<open>\<^verbatim>\<open>bundleCase(state, data)\<close>, on the sub-state and the incoming data.\<close>

definition bundleCase :: "jsval \<Rightarrow> jsval \<Rightarrow> js_error + jsval" where
  "bundleCase state data =
     bind (if strict_eq (opt_prop data ''page'') (JNum 1) then Inr True
           else bind (get_prop data ''page'') (\<lambda>p. Inr (\<not> truthy p)))
       (\<lambda>cannnotConcat.
     let isArray = is_array (opt_prop data ''results'') in
     bind (get_prop state ''page'') (\<lambda>statePage.
     bind (if js_typeof statePage = ''string''
           then bind (get_prop data ''page'') (\<lambda>p. Inr (strict_eq p statePage))
           else Inr False)
       (\<lambda>canConcatForPagingToken.
     bind (if cannnotConcat \<or> \<not> isArray then Inr (opt_prop data ''results'')
           else bind (spread (member state ''results'')) (\<lambda>old.
                bind (if canConcatForPagingToken then Inr []
                      else spread (member data ''results''))
                  (\<lambda>added. Inr (JArr (old @ added)))))
       (\<lambda>results.
     bind (set_field state ''results'' results) (\<lambda>s1.
     set_field s1 ''hasMore''
       (JBool (if isArray then 0 < array_length (opt_prop data ''results'') else True)))))))"

text \<open>
  The \<^verbatim>\<open>setPageData\<close> reducer, on the state and \<^verbatim>\<open>action.payload\<close>;
  \<^verbatim>\<open>ignoreDefaultReducers\<close> is the option \<^verbatim>\<open>sliceCreator\<close> was called with.
\<close>

definition setPageData :: "jsval \<Rightarrow> jsobj \<Rightarrow> jsval \<Rightarrow> js_error + jsobj" where
  "setPageData ignoreDefaultReducers state actionPayload =
     (if truthy ignoreDefaultReducers then Inr state
      else
        bind (get_prop actionPayload ''_queryType'') (\<lambda>queryType.
        bind (get_prop actionPayload ''data'') (\<lambda>data.
        bind (if truthy queryType then Inr queryType else get_prop data ''_queryType'')
          (\<lambda>consolidateQueryType.
        let newState = obj_get state (prop_key consolidateQueryType) in
        bind (get_prop data ''errors'') (\<lambda>errors.
        bind (if truthy errors then set_field newState ''errors'' errors else Inr newState)
          (\<lambda>s1.
        bind (get_prop data ''page'') (\<lambda>page.
        bind (if truthy page then set_field s1 ''page'' page else Inr s1) (\<lambda>s2.
        bind (bundleCase s2 data) (\<lambda>s3.
        bind (set_field s3 ''isLoading''
                (if truthy (opt_prop data ''isLoading'') then opt_prop data ''isLoading''
                 else JBool False))
          (\<lambda>s4. Inr (write_back state (prop_key consolidateQueryType) s4)))))))))))"

text \<open>
  The reducers that \<^verbatim>\<open>constructPendingCases\<close>, \<^verbatim>\<open>constructFailedCases\<close> and
  \<^verbatim>\<open>constructSuccessCases\<close> register, on the enum table, the state and the action.
\<close>

definition constructPendingCases :: "jsobj \<Rightarrow> jsobj \<Rightarrow> action \<Rightarrow> js_error + jsobj" where
  "constructPendingCases enums state act =
     bind (get_prop (originalArgs act) ''_queryType'') (\<lambda>key.
     let newState = obj_get state (prop_key key) in
     if truthy key \<and> truthy (getKeyFromEnumValue enums key)
     then bind (set_field newState ''isLoading'' (JBool True))
            (\<lambda>s1. Inr (write_back state (prop_key key) s1))
     else Inr state)"

definition constructFailedCases :: "jsobj \<Rightarrow> jsobj \<Rightarrow> action \<Rightarrow> js_error + jsobj" where
  "constructFailedCases enums state act =
     bind (get_prop (originalArgs act) ''_queryType'') (\<lambda>key.
     let newState = obj_get state (prop_key key) in
     if truthy key \<and> truthy (getKeyFromEnumValue enums key)
     then bind (if truthy (opt_prop newState ''isLoading'')
                then set_field newState ''isLoading'' (JBool False) else Inr newState)
            (\<lambda>s1.
          bind (if truthy (opt_prop s1 ''errors'')
                then set_field s1 ''errors'' (payload act) else Inr s1)
            (\<lambda>s2. Inr (write_back state (prop_key key) s2)))
     else Inr state)"

text \<open>
  \<^verbatim>\<open>isUnique\<close> and \<^verbatim>\<open>getUnique\<close> are imported from \<^verbatim>\<open>./utils\<close>, which is not among the
  source files; the fulfilled reducer takes them as parameters. \<open>mergeResults\<close> is the
  body of its test on the payload's results.
\<close>

definition mergeResults ::
  "(jsval list \<Rightarrow> bool) \<Rightarrow> (jsval list \<Rightarrow> jsval list) \<Rightarrow> jsval \<Rightarrow> jsval \<Rightarrow> js_error + jsval"
  where
  "mergeResults is_unique get_unique newState incoming =
     bind (get_prop newState ''results'') (\<lambda>current.
     if is_array current \<and> truthy (opt_prop (opt_prop newState ''results'') ''length'')
     then bind (spread current) (\<lambda>xs.
          bind (spread (if is_nullish incoming then JArr [] else incoming)) (\<lambda>ys.
          if is_unique (xs @ ys) \<and> is_unique xs \<and> \<not> truthy (member newState ''hasMore'')
          then set_field newState ''results'' (JArr (get_unique (xs @ ys)))
          else Inr newState))
     else if \<not> truthy (opt_prop (opt_prop newState ''results'') ''length'')
             \<or> strict_eq (member newState ''page'') (JNum 1)
     then set_field newState ''results'' incoming
     else Inr newState)"

definition constructSuccessCases ::
  "(jsval list \<Rightarrow> bool) \<Rightarrow> (jsval list \<Rightarrow> jsval list) \<Rightarrow> jsobj \<Rightarrow> jsobj \<Rightarrow> action
     \<Rightarrow> js_error + jsobj" where
  "constructSuccessCases is_unique get_unique enums state act =
     bind (get_prop (originalArgs act) ''_queryType'') (\<lambda>key.
     let newState = obj_get state (prop_key key);
         incoming = opt_prop (payload act) ''results''
     in if truthy key \<and> truthy (getKeyFromEnumValue enums key)
        then bind (if truthy incoming \<or> truthy (opt_prop incoming ''length'')
                   then mergeResults is_unique get_unique newState incoming
                   else Inr newState)
               (\<lambda>s1.
             bind (set_field s1 ''isLoading'' (JBool False))
               (\<lambda>s2. Inr (write_back state (prop_key key) s2)))
        else Inr state)"

section \<open>The uniqueness checker\<close>

definition same_entity :: "jsval \<Rightarrow> jsval \<Rightarrow> bool" where
  \<comment> \<open>Modelled from the spec: the identity rule of the uniqueness checker of \<^verbatim>\<open>./utils\<close>,
      which is missing from the sources. Two items are the same entity when they are
      equal as values, or when both carry the identifying field \<^verbatim>\<open>id\<close> with the same
      value.\<close>
  "same_entity a b =
     (if a = b then True
      else member a ''id'' \<noteq> JUndefined \<and> member a ''id'' = member b ''id'')"

fun isUnique :: "jsval list \<Rightarrow> bool" where
  \<comment> \<open>Modelled from the spec: \<^verbatim>\<open>isUnique\<close> of \<^verbatim>\<open>./utils\<close> is missing from the sources. It
      is true iff no two elements of the sequence are duplicates under the identity
      rule.\<close>
  "isUnique [] = True"
| "isUnique (x # xs) = (\<not> list_ex (same_entity x) xs \<and> isUnique xs)"

function getUnique :: "jsval list \<Rightarrow> jsval list" where
  \<comment> \<open>Modelled from the spec: \<^verbatim>\<open>getUnique\<close> of \<^verbatim>\<open>./utils\<close> is missing from the sources. Each
      identity keeps the position of its first occurrence and the content of its last
      one.\<close>
  "getUnique [] = []"
| "getUnique (x # xs) =
     last (x # filter (same_entity x) xs) # getUnique (filter (\<lambda>y. \<not> same_entity x y) xs)"
  by pat_completeness auto
termination
  by (relation "measure length") (auto simp: less_Suc_eq_le)

section \<open>Auxiliary notions for the statements\<close>


text \<open>
  The sub-state after the first two assignments of \<^verbatim>\<open>setPageData\<close>
  (\<^verbatim>\<open>if (data.errors) newState.errors = data.errors; if (data.page) newState.page = data.page\<close>),
  which is what \<^verbatim>\<open>bundleCase\<close> receives.
\<close>

definition stored_before_bundle :: "jsobj \<Rightarrow> jsval \<Rightarrow> jsobj" where
  "stored_before_bundle sub data =
     (let s1 = (if truthy (member data ''errors'')
                then obj_set sub ''errors'' (member data ''errors'') else sub)
      in if truthy (member data ''page'') then obj_set s1 ''page'' (member data ''page'') else s1)"

section \<open>The container of the scenarios\<close>

text \<open>
  The spec's scenarios run on container \<^verbatim>\<open>users\<close> with seed \<^verbatim>\<open>{users: [], count: 0}\<close>;
  items are records \<^verbatim>\<open>{id: n}\<close>. \<open>users_state\<close> is the container state with the given
  fields of the \<^verbatim>\<open>users\<close> envelope; \<open>query_action\<close> is a lifecycle action carrying a
  \<^verbatim>\<open>_queryType\<close> and a payload.
\<close>

definition users_seed :: jsobj where
  "users_seed = [(''users'', JArr []), (''count'', JNum 0)]"

definition users_enums :: jsobj where
  "users_enums = queryTypeEnums sliceString ''users'' users_seed JUndefined"

definition item :: "int \<Rightarrow> jsval" where
  "item n = JObj [(''id'', JNum n)]"

definition users_state :: "jsval list \<Rightarrow> bool \<Rightarrow> bool \<Rightarrow> jsval \<Rightarrow> jsval \<Rightarrow> jsobj" where
  "users_state results isLoading hasMore page errors =
     [(''usersUsers'',
         JObj [(''results'', JArr results), (''isLoading'', JBool isLoading),
               (''hasMore'', JBool hasMore), (''page'', page), (''errors'', errors)]),
      (''usersCount'', JNum 0)]"

definition query_action :: "string \<Rightarrow> jsval \<Rightarrow> action" where
  "query_action key p = \<lparr>originalArgs = JObj [(''_queryType'', JStr key)], payload = p\<rparr>"

definition page_data :: "string \<Rightarrow> jsobj \<Rightarrow> jsval" where
  "page_data key data = JObj [(''_queryType'', JStr key), (''data'', JObj data)]"

section \<open>Evaluation rules\<close>

text \<open>The defining equations that the simplifier unfolds to run the model on a concrete input.\<close>

lemmas js_eval =
  obj_get_def get_prop_def opt_prop_def bind_def strict_eq_def write_back_def object_keys_def
  sliceString_def upper_char_def envelope_def show_int_def

lemmas deriver_eval =
  createInitialStateSlice_def createSliceState_def sliceInitialState_def

lemmas enum_eval =
  createEnumObject_def processKeys_def createModifiedKeys_def getKeyFromEnumValue_def
  queryTypeEnums_def literal_get_def inherited_def object_prototype_def

lemmas scenario_eval =
  users_seed_def users_enums_def item_def users_state_def query_action_def page_data_def

lemmas handler_eval =
  setPageData_def bundleCase_def constructPendingCases_def constructFailedCases_def
  constructSuccessCases_def mergeResults_def same_entity_def

lemma bind_Inr: "bind (Inr x) f = f x"
  by (simp add: bind_def)

lemma bind_Inl: "bind (Inl e) f = Inl e"
  by (simp add: bind_def)

section \<open>Properties of objects\<close>

lemma obj_get_obj_set: "obj_get (obj_set kvs k v) k' = (if k' = k then v else obj_get kvs k')"
  by (induction kvs) (auto simp: obj_get_def)


lemma obj_get_map_of: "map_of kvs k = Some v \<Longrightarrow> obj_get kvs k = v"
  by (simp add: obj_get_def)

section \<open>Properties of the initial state deriver\<close>

lemma createSliceState_get:
  "obj_get (createSliceState ns state name ign acc key) k' =
     (if k' = ns name key then slice_value ign (obj_get state key) else obj_get acc k')"
  by (simp add: createSliceState_def slice_value_def obj_get_obj_set)

lemma fold_createSliceState_get:
  assumes "inj_on (ns name) K" and "set ks \<subseteq> K" and "k \<in> K"
  shows "obj_get (foldl (createSliceState ns state name ign) acc ks) (ns name k) =
           (if k \<in> set ks then slice_value ign (obj_get state k) else obj_get acc (ns name k))"
  using assms(2)
proof (induction ks arbitrary: acc)
  case Nil
  then show ?case by simp
next
  case (Cons a ks)
  from Cons.prems have a: "a \<in> K" and ks: "set ks \<subseteq> K" by auto
  have eq: "ns name k = ns name a \<longleftrightarrow> k = a"
    using assms(1) assms(3) a by (auto dest: inj_onD)
  show ?case
    using Cons.IH [OF ks, of "createSliceState ns state name ign acc a"]
    by (auto simp: createSliceState_get eq)
qed

lemma createInitialStateSlice_get:
  assumes "inj_on (ns name) (fst ` set state)" and "k \<in> fst ` set state"
  shows "obj_get (createInitialStateSlice ns state name ign) (ns name k) =
           slice_value ign (obj_get state k)"
  using fold_createSliceState_get
      [where ns = ns and name = name and K = "fst ` set state" and ks = "object_keys state"
         and k = k and state = state and ign = ign and acc = "[]"]
    assms
  by (simp add: createInitialStateSlice_def object_keys_def)



text \<open>
  Claim C8. With \<^verbatim>\<open>ignoreDefaultReducers\<close> unset, the derived state holds, under the
  namespaced key of every seed key, the seed value itself when its type is number, string
  or boolean, and otherwise the envelope with \<open>results\<close> the seed value, \<open>isLoading\<close>
  false, \<open>hasMore\<close> true, \<open>page\<close> 0 and \<open>errors\<close> null. The namespacer is the missing
  helper; its contract (injective on the base keys of one container) is the hypothesis.
\<close>

theorem createInitialStateSlice_default:
  assumes "inj_on (ns name) (fst ` set seed)" and "map_of seed k = Some v"
  shows "obj_get (createInitialStateSlice ns seed name JUndefined) (ns name k) =
           (if js_typeof v \<in> set [''number'', ''string'', ''boolean''] then v
            else JObj [(''results'', v), (''isLoading'', JBool False), (''hasMore'', JBool True),
                       (''page'', JNum 0), (''errors'', JNull)])"
proof -
  from assms(2) have k: "k \<in> fst ` set seed"
    by (metis map_of_SomeD fst_conv image_eqI)
  show ?thesis
    using createInitialStateSlice_get
        [where ns = ns and name = name and state = seed and k = k and ign = JUndefined]
      assms(1) k obj_get_map_of [OF assms(2)]
    by (simp add: slice_value_def envelope_def)
qed

theorem createInitialStateSlice_default_witness:
  "inj_on (sliceString ''users'') (fst ` set [(''users'', JArr []), (''count'', JNum 0)])
   \<and> obj_get (createInitialStateSlice sliceString [(''users'', JArr []), (''count'', JNum 0)]
               ''users'' JUndefined) (sliceString ''users'' ''users'')
       = JObj [(''results'', JArr []), (''isLoading'', JBool False), (''hasMore'', JBool True),
               (''page'', JNum 0), (''errors'', JNull)]
   \<and> obj_get (createInitialStateSlice sliceString [(''users'', JArr []), (''count'', JNum 0)]
               ''users'' JUndefined) (sliceString ''users'' ''count'')
       = JNum 0"
proof -
  have inj: "inj_on (sliceString ''users'') (fst ` set [(''users'', JArr []), (''count'', JNum 0)])"
    by (simp add: sliceString_def)
  have u: "map_of [(''users'', JArr []), (''count'', JNum 0)] ''users'' = Some (JArr [])"
    by simp
  have c: "map_of [(''users'', JArr []), (''count'', JNum 0)] ''count'' = Some (JNum 0)"
    by simp
  show ?thesis
    using inj createInitialStateSlice_default [where ns = sliceString, OF inj u]
      createInitialStateSlice_default [where ns = sliceString, OF inj c]
    by simp
qed

text \<open>
  Scenario A in full: seed \<^verbatim>\<open>{users: [], count: 0}\<close> under container \<^verbatim>\<open>users\<close>.
\<close>

lemma scenario_A:
  "createInitialStateSlice sliceString [(''users'', JArr []), (''count'', JNum 0)] ''users''
     JUndefined
   = [(''usersUsers'',
         JObj [(''results'', JArr []), (''isLoading'', JBool False), (''hasMore'', JBool True),
               (''page'', JNum 0), (''errors'', JNull)]),
      (''usersCount'', JNum 0)]"
  by (simp add: js_eval deriver_eval)

text \<open>
  Claim C5, as amended. The deriver tests \<^verbatim>\<open>ignoreDefaultReducers\<close> for truthiness only,
  and every array is truthy: with an array of keys as third argument (empty or not),
  every seed value is stored verbatim under its namespaced key, whether its key is
  listed or not, and no key receives the envelope.
\<close>

theorem createInitialStateSlice_key_list:
  assumes "inj_on (ns name) (fst ` set seed)" and "map_of seed k = Some v"
  shows "obj_get (createInitialStateSlice ns seed name (JArr keys)) (ns name k) = v"
proof -
  from assms(2) have k: "k \<in> fst ` set seed"
    by (metis map_of_SomeD fst_conv image_eqI)
  show ?thesis
    using createInitialStateSlice_get
        [where ns = ns and name = name and state = seed and k = k and ign = "JArr keys"]
      assms(1) k obj_get_map_of [OF assms(2)]
    by (simp add: slice_value_def)
qed

theorem createInitialStateSlice_key_list_witness:
  "obj_get (createInitialStateSlice sliceString [(''users'', JArr []), (''posts'', JArr [])]
             ''blog'' (JArr [JStr ''users''])) (sliceString ''blog'' ''posts'')
   = JArr []"
proof -
  have inj: "inj_on (sliceString ''blog'') (fst ` set [(''users'', JArr []), (''posts'', JArr [])])"
    by (simp add: sliceString_def)
  have p: "map_of [(''users'', JArr []), (''posts'', JArr [])] ''posts'' = Some (JArr [])"
    by simp
  show ?thesis
    using createInitialStateSlice_key_list [where ns = sliceString, OF inj p] by simp
qed

text \<open>
  The claim as the spec states it fails: with the allow-list \<^verbatim>\<open>['users']\<close> the unlisted
  key \<^verbatim>\<open>posts\<close>, whose value is an array, is stored raw and not as an envelope.
\<close>

theorem createInitialStateSlice_allow_list_counterexample:
  "js_typeof (JArr []) \<notin> set [''number'', ''string'', ''boolean'']
   \<and> obj_get (createInitialStateSlice sliceString [(''users'', JArr []), (''posts'', JArr [])]
               ''blog'' (JArr [JStr ''users''])) (sliceString ''blog'' ''posts'')
       \<noteq> JObj [(''results'', JArr []), (''isLoading'', JBool False), (''hasMore'', JBool True),
               (''page'', JNum 0), (''errors'', JNull)]"
  by (simp add: js_eval deriver_eval)

section \<open>Properties of the enum builder\<close>











text \<open>
  The other hypotheses of the round trip are needed as well. A base key that is the
  empty string gets no forward entry, under every namespacer: the record of its
  namespaced key holds a falsy value.
\<close>

lemma queryTypeEnums_empty_key:
  "obj_get (queryTypeEnums ns name [([], v)] ign) [] = JUndefined"
  by (simp add: queryTypeEnums_def createEnumObject_def processKeys_def createModifiedKeys_def
      createInitialStateSlice_def createSliceState_def object_keys_def obj_get_def
      literal_get_def)

text \<open>
  A namespaced key that is itself a base key: forward and reverse entries share the
  table, and the later write wins. For container \<^verbatim>\<open>users\<close> with seed
  \<^verbatim>\<open>{users: [], usersUsers: []}\<close> the entry under \<^verbatim>\<open>usersUsers\<close> is the forward entry
  of the second key, so the round trip from \<^verbatim>\<open>users\<close> does not come back.
\<close>

lemma queryTypeEnums_shared_key:
  "obj_get (queryTypeEnums sliceString ''users''
             [(''users'', JArr []), (''usersUsers'', JArr [])] JUndefined) ''users''
     = JStr ''usersUsers''
   \<and> obj_get (queryTypeEnums sliceString ''users''
               [(''users'', JArr []), (''usersUsers'', JArr [])] JUndefined) ''usersUsers''
     = JStr ''usersUsersUsers''"
  by (simp add: js_eval deriver_eval enum_eval Let_def)

lemma users_enums_value:
  "users_enums = [(''usersUsers'', JStr ''users''), (''users'', JStr ''usersUsers''),
                  (''usersCount'', JStr ''count''), (''count'', JStr ''usersCount'')]"
  by (simp add: js_eval deriver_eval enum_eval scenario_eval)

lemma users_initial_state:
  "sliceInitialState sliceString ''users'' users_seed = users_state [] False True (JNum 0) JNull"
  by (simp add: js_eval deriver_eval scenario_eval)

section \<open>Properties of the lifecycle handlers\<close>

lemma write_back_present:
  "map_of state k = Some old \<Longrightarrow> write_back state k sub = obj_set state k sub"
  by (simp add: write_back_def)

text \<open>
  A lifecycle action whose \<^verbatim>\<open>_queryType\<close> is falsy or is no value of the enum table
  leaves the state as it is, in all three reducers.
\<close>

lemma constructPendingCases_invalid_key:
  assumes "get_prop (originalArgs act) ''_queryType'' = Inr key"
    and "\<not> (truthy key \<and> truthy (getKeyFromEnumValue enums key))"
  shows "constructPendingCases enums state act = Inr state"
  using assms by (auto simp: constructPendingCases_def bind_Inr)

lemma constructFailedCases_invalid_key:
  assumes "get_prop (originalArgs act) ''_queryType'' = Inr key"
    and "\<not> (truthy key \<and> truthy (getKeyFromEnumValue enums key))"
  shows "constructFailedCases enums state act = Inr state"
  using assms by (auto simp: constructFailedCases_def bind_Inr)

lemma constructSuccessCases_invalid_key:
  assumes "get_prop (originalArgs act) ''_queryType'' = Inr key"
    and "\<not> (truthy key \<and> truthy (getKeyFromEnumValue enums key))"
  shows "constructSuccessCases is_unique get_unique enums state act = Inr state"
  using assms by (auto simp: constructSuccessCases_def bind_Inr)

text \<open>
  A lifecycle action of a query started without an argument has \<^verbatim>\<open>originalArgs\<close>
  \<^verbatim>\<open>undefined\<close>; each reducer throws on reading \<^verbatim>\<open>_queryType\<close> from it.
\<close>

lemma lifecycle_without_args_throws:
  assumes "originalArgs act = JUndefined"
  shows "constructPendingCases enums state act = Inl TypeError"
    and "constructFailedCases enums state act = Inl TypeError"
    and "constructSuccessCases is_unique get_unique enums state act = Inl TypeError"
  using assms
  by (simp_all add: constructPendingCases_def constructFailedCases_def
      constructSuccessCases_def get_prop_def bind_Inl)

text \<open>
  A key that the enum table resolves but that names no sub-state (a base key, which is a
  value of the table as well): the pending reducer throws on the assignment.
\<close>

lemma constructPendingCases_base_key_throws:
  "getKeyFromEnumValue users_enums (JStr ''users'') = JStr ''usersUsers''
   \<and> constructPendingCases users_enums (users_state [] False True (JNum 0) JNull)
        (query_action ''users'' JUndefined)
       = Inl TypeError"
  by (simp add: users_enums_value getKeyFromEnumValue_def strict_eq_def users_state_def
      query_action_def constructPendingCases_def get_prop_def obj_get_def bind_Inr bind_Inl)

text \<open>
  Claim C1 (code bug). \<^verbatim>\<open>setPageData\<close> with a \<^verbatim>\<open>_queryType\<close> that is no value of the
  enum table: the reducer reads \<^verbatim>\<open>state['nope']\<close>, which is \<^verbatim>\<open>undefined\<close>, and
  \<^verbatim>\<open>bundleCase\<close> throws a TypeError on \<^verbatim>\<open>state.page\<close>.
\<close>

theorem setPageData_invalid_key_throws:
  "getKeyFromEnumValue users_enums (JStr ''nope'') = JUndefined
   \<and> setPageData JUndefined (sliceInitialState sliceString ''users'' users_seed)
        (page_data ''nope'' [(''results'', JArr [])])
       = Inl TypeError"
  by (simp add: users_enums_value users_initial_state getKeyFromEnumValue_def strict_eq_def
      users_state_def page_data_def setPageData_def bundleCase_def get_prop_def opt_prop_def
      obj_get_def bind_Inr bind_Inl)

text \<open>
  The rejected reducer on an object sub-state, for a resolvable key: \<open>isLoading\<close> is
  cleared when it is truthy, and the payload is stored in \<open>errors\<close> exactly when the stored
  \<open>errors\<close> is truthy already.
\<close>

lemma constructFailedCases_object:
  assumes "get_prop (originalArgs act) ''_queryType'' = Inr (JStr k)" and "k \<noteq> []"
    and "truthy (getKeyFromEnumValue enums (JStr k))"
    and "map_of state k = Some (JObj sub)"
  shows "constructFailedCases enums state act =
           Inr (obj_set state k (JObj
             (let s1 = (if truthy (obj_get sub ''isLoading'')
                        then obj_set sub ''isLoading'' (JBool False) else sub)
              in if truthy (obj_get sub ''errors'') then obj_set s1 ''errors'' (payload act)
                 else s1)))"
proof -
  have sub: "obj_get state k = JObj sub"
    using assms(4) by (simp add: obj_get_def)
  show ?thesis
    using assms(1,2,3) sub write_back_present [OF assms(4)]
    by (simp add: constructFailedCases_def opt_prop_def bind_Inr obj_get_obj_set Let_def)
qed

lemma constructFailedCases_errors_falsy:
  assumes "get_prop (originalArgs act) ''_queryType'' = Inr (JStr k)" and "k \<noteq> []"
    and "truthy (getKeyFromEnumValue enums (JStr k))"
    and "map_of state k = Some (JObj sub)"
    and "\<not> truthy (obj_get sub ''errors'')"
  shows "\<exists>state'. constructFailedCases enums state act = Inr state'
           \<and> member (obj_get state' k) ''errors'' = obj_get sub ''errors''"
  using constructFailedCases_object [OF assms(1-4)] assms(5)
  by (simp add: obj_get_obj_set Let_def)

text \<open>
  Claim C4 (code bug). A rejected action on the \<^verbatim>\<open>users\<close> envelope as derived (\<open>errors\<close>
  null) and loading: the reducer clears \<open>isLoading\<close> and leaves \<open>errors\<close> null, because it
  assigns the payload only when the stored \<open>errors\<close> is already truthy.
\<close>

theorem constructFailedCases_errors_stay_null:
  "getKeyFromEnumValue users_enums (JStr ''usersUsers'') = JStr ''users''
   \<and> constructFailedCases users_enums (users_state [] True True (JNum 0) JNull)
        (query_action ''usersUsers'' (JStr ''Network Error''))
       = Inr (users_state [] False True (JNum 0) JNull)"
  by (simp add: users_enums_value getKeyFromEnumValue_def strict_eq_def users_state_def
      query_action_def constructFailedCases_def get_prop_def opt_prop_def obj_get_def
      write_back_def bind_Inr bind_Inl)

text \<open>
  The fulfilled reducer on a sub-state whose \<open>results\<close> is a non-empty array, with an
  array in the payload: when the combined-unique test fails, nothing but \<open>isLoading\<close>
  changes. The test on \<^verbatim>\<open>newState.page === 1\<close> stands in the \<^verbatim>\<open>else\<close> of the test for a
  non-empty array and is not evaluated.
\<close>

lemma constructSuccessCases_no_merge:
  assumes "get_prop (originalArgs act) ''_queryType'' = Inr (JStr k)" and "k \<noteq> []"
    and "truthy (getKeyFromEnumValue enums (JStr k))"
    and "map_of state k = Some (JObj sub)"
    and "obj_get sub ''results'' = JArr xs" and "xs \<noteq> []"
    and "opt_prop (payload act) ''results'' = JArr ys"
    and "\<not> (is_unique (xs @ ys) \<and> is_unique xs \<and> \<not> truthy (obj_get sub ''hasMore''))"
  shows "constructSuccessCases is_unique get_unique enums state act
           = Inr (obj_set state k (JObj (obj_set sub ''isLoading'' (JBool False))))"
proof -
  have sub: "obj_get state k = JObj sub"
    using assms(4) by (simp add: obj_get_def)
  have merge: "mergeResults is_unique get_unique (JObj sub) (JArr ys) = Inr (JObj sub)"
    using assms(5,6,8) by (auto simp: mergeResults_def get_prop_def opt_prop_def bind_def)
  show ?thesis
    using assms(1,2,3,7) sub merge write_back_present [OF assms(4)]
    by (simp add: constructSuccessCases_def bind_def)
qed

text \<open>
  Claim C2, as amended. A fulfilled action with a resolvable key, on a sub-state whose
  \<open>results\<close> is a non-empty array and whose \<open>hasMore\<close> is truthy, with an array of results
  in the payload: the combined-unique gate fails on \<open>hasMore\<close>, the page test is not
  reached, \<open>results\<close> stays what it was and \<open>isLoading\<close> is cleared; no other field and no
  other key of the state changes. This holds whatever \<^verbatim>\<open>isUnique\<close> and \<^verbatim>\<open>getUnique\<close> compute
  and whatever the page is.
\<close>

theorem constructSuccessCases_hasMore_keeps_results:
  assumes "get_prop (originalArgs act) ''_queryType'' = Inr (JStr k)" and "k \<noteq> []"
    and "truthy (getKeyFromEnumValue enums (JStr k))"
    and "map_of state k = Some (JObj sub)"
    and "obj_get sub ''results'' = JArr xs" and "xs \<noteq> []"
    and "opt_prop (payload act) ''results'' = JArr ys"
    and "truthy (obj_get sub ''hasMore'')"
  shows "constructSuccessCases is_unique get_unique enums state act
           = Inr (obj_set state k (JObj (obj_set sub ''isLoading'' (JBool False))))"
  by (rule constructSuccessCases_no_merge [where xs = xs and ys = ys]) (use assms in auto)

theorem constructSuccessCases_hasMore_keeps_results_witness:
  "constructSuccessCases isUnique getUnique users_enums
     (users_state [item 1] True True (JNum 1) JNull)
     (query_action ''usersUsers'' (JObj [(''results'', JArr [item 2])]))
   = Inr (users_state [item 1] False True (JNum 1) JNull)"
proof -
  have "constructSuccessCases isUnique getUnique users_enums
          (users_state [item 1] True True (JNum 1) JNull)
          (query_action ''usersUsers'' (JObj [(''results'', JArr [item 2])]))
        = Inr (obj_set (users_state [item 1] True True (JNum 1) JNull) ''usersUsers''
            (JObj (obj_set [(''results'', JArr [item 1]), (''isLoading'', JBool True),
                            (''hasMore'', JBool True), (''page'', JNum 1), (''errors'', JNull)]
                     ''isLoading'' (JBool False))))"
    by (rule constructSuccessCases_hasMore_keeps_results [where xs = "[item 1]" and ys = "[item 2]"])
      (simp_all add: users_enums_value getKeyFromEnumValue_def strict_eq_def users_state_def
        query_action_def get_prop_def opt_prop_def obj_get_def)
  then show ?thesis by (simp add: users_state_def)
qed

text \<open>
  Scenario C as the spec states it fails: the handler does not replace \<open>results\<close> with
  \<^verbatim>\<open>[{id:2}]\<close>; \<open>results\<close> is still \<^verbatim>\<open>[{id:1}]\<close> afterwards.
\<close>

theorem constructSuccessCases_scenario_C_counterexample:
  "constructSuccessCases isUnique getUnique users_enums
     (users_state [item 1] True True (JNum 1) JNull)
     (query_action ''usersUsers'' (JObj [(''results'', JArr [item 2])]))
   \<noteq> Inr (users_state [item 2] False True (JNum 1) JNull)"
  by (simp add: users_enums_value getKeyFromEnumValue_def strict_eq_def users_state_def
      query_action_def item_def constructSuccessCases_def mergeResults_def get_prop_def
      opt_prop_def obj_get_def write_back_def bind_Inr bind_Inl)

text \<open>
  Claim C6, as amended. A fulfilled action with a resolvable key, on a sub-state whose
  \<open>results\<close> is a non-empty array, with an array of results in the payload: when the
  concatenation of the two sequences is not duplicate-free under the identity rule, the
  combined-unique gate fails, \<open>results\<close> stays what it was and \<open>isLoading\<close> is cleared. In
  Scenario B the concatenation holds \<^verbatim>\<open>{id:2}\<close> twice.
\<close>

theorem constructSuccessCases_duplicate_keeps_results:
  assumes "get_prop (originalArgs act) ''_queryType'' = Inr (JStr k)" and "k \<noteq> []"
    and "truthy (getKeyFromEnumValue enums (JStr k))"
    and "map_of state k = Some (JObj sub)"
    and "obj_get sub ''results'' = JArr xs" and "xs \<noteq> []"
    and "opt_prop (payload act) ''results'' = JArr ys"
    and "\<not> isUnique (xs @ ys)"
  shows "constructSuccessCases isUnique get_unique enums state act
           = Inr (obj_set state k (JObj (obj_set sub ''isLoading'' (JBool False))))"
  by (rule constructSuccessCases_no_merge [where xs = xs and ys = ys]) (use assms in auto)

theorem constructSuccessCases_duplicate_keeps_results_witness:
  "constructSuccessCases isUnique getUnique users_enums
     (users_state [item 1, item 2] True False (JNum 2) JNull)
     (query_action ''usersUsers'' (JObj [(''results'', JArr [item 2, item 3])]))
   = Inr (users_state [item 1, item 2] False False (JNum 2) JNull)"
proof -
  have "constructSuccessCases isUnique getUnique users_enums
          (users_state [item 1, item 2] True False (JNum 2) JNull)
          (query_action ''usersUsers'' (JObj [(''results'', JArr [item 2, item 3])]))
        = Inr (obj_set (users_state [item 1, item 2] True False (JNum 2) JNull) ''usersUsers''
            (JObj (obj_set [(''results'', JArr [item 1, item 2]), (''isLoading'', JBool True),
                            (''hasMore'', JBool False), (''page'', JNum 2), (''errors'', JNull)]
                     ''isLoading'' (JBool False))))"
    by (rule constructSuccessCases_duplicate_keeps_results
          [where xs = "[item 1, item 2]" and ys = "[item 2, item 3]"])
      (simp_all add: users_enums_value getKeyFromEnumValue_def strict_eq_def users_state_def
        query_action_def get_prop_def opt_prop_def obj_get_def item_def same_entity_def)
  then show ?thesis by (simp add: users_state_def)
qed

text \<open>
  Scenario B as the spec states it fails: the sequence handed to \<^verbatim>\<open>isUnique\<close> is
  \<^verbatim>\<open>[{id:1},{id:2},{id:2},{id:3}]\<close>, which is not duplicate-free, and the handler does not
  store the union \<^verbatim>\<open>[{id:1},{id:2},{id:3}]\<close>.
\<close>

theorem constructSuccessCases_scenario_B_counterexample:
  "isUnique ([item 1, item 2] @ [item 2, item 3]) = False
   \<and> constructSuccessCases isUnique getUnique users_enums
       (users_state [item 1, item 2] True False (JNum 2) JNull)
       (query_action ''usersUsers'' (JObj [(''results'', JArr [item 2, item 3])]))
     \<noteq> Inr (users_state [item 1, item 2, item 3] False False (JNum 2) JNull)"
  by (simp add: users_enums_value getKeyFromEnumValue_def strict_eq_def users_state_def
      query_action_def item_def same_entity_def constructSuccessCases_def mergeResults_def
      get_prop_def opt_prop_def obj_get_def write_back_def bind_Inr bind_Inl)

section \<open>Properties of the explicit page-data mutation\<close>

text \<open>The replace branch of \<^verbatim>\<open>bundleCase\<close> on an object sub-state.\<close>

lemma bundleCase_replace:
  assumes "\<not> is_nullish data"
    and "member data ''page'' = JUndefined \<or> member data ''page'' = JNum 1
         \<or> \<not> is_array (member data ''results'')"
  shows "bundleCase (JObj sub) data =
           Inr (JObj (obj_set (obj_set sub ''results'' (member data ''results'')) ''hasMore''
                  (JBool (if is_array (member data ''results'')
                          then 0 < array_length (member data ''results'') else True))))"
  using assms
  by (auto simp: bundleCase_def get_prop_def opt_prop_def bind_def strict_eq_def Let_def)

text \<open>
  The append branch of \<^verbatim>\<open>bundleCase\<close>, taken on its own: the incoming array is appended
  unless the stored page is a string equal to the incoming page.
\<close>

lemma bundleCase_append:
  assumes "truthy (member data ''page'')" and "member data ''page'' \<noteq> JNum 1"
    and "member data ''results'' = JArr ys" and "obj_get sub ''results'' = JArr xs"
  shows "bundleCase (JObj sub) data =
           Inr (JObj (obj_set (obj_set sub ''results''
                  (JArr (xs @ (if js_typeof (obj_get sub ''page'') = ''string''
                                  \<and> strict_eq (member data ''page'') (obj_get sub ''page'')
                               then [] else ys))))
                ''hasMore'' (JBool (ys \<noteq> []))))"
proof -
  from assms(1) have nn: "\<not> is_nullish data"
    by (cases data) simp_all
  have one: "\<not> strict_eq (member data ''page'') (JNum 1)"
    using assms(2) by (simp add: strict_eq_def)
  show ?thesis
    using assms nn one
    by (simp add: bundleCase_def get_prop_def opt_prop_def bind_Inr Let_def)
qed

lemma bundleCase_fields:
  assumes "bundleCase (JObj sub) data = Inr s"
  shows "\<exists>r h. s = JObj (obj_set (obj_set sub ''results'' r) ''hasMore'' h)"
  using assms
  by (auto simp: bundleCase_def get_prop_def opt_prop_def bind_def Let_def
      split: if_splits sum.splits)

text \<open>
  \<^verbatim>\<open>setPageData\<close> with default reducers enabled, on a payload with data and a key that
  names an object sub-state: the reducer is \<^verbatim>\<open>bundleCase\<close> on the sub-state with \<open>errors\<close>
  and \<open>page\<close> already stored, followed by the assignment of \<open>isLoading\<close>.
\<close>

lemma setPageData_tail:
  assumes "\<not> is_nullish data" and "map_of state k = Some (JObj sub)"
  shows "(let newState = obj_get state k in
           bind (get_prop data ''errors'') (\<lambda>errors.
           bind (if truthy errors then set_field newState ''errors'' errors else Inr newState)
             (\<lambda>s1.
           bind (get_prop data ''page'') (\<lambda>page.
           bind (if truthy page then set_field s1 ''page'' page else Inr s1) (\<lambda>s2.
           bind (bundleCase s2 data) (\<lambda>s3.
           bind (set_field s3 ''isLoading''
                   (if truthy (opt_prop data ''isLoading'') then opt_prop data ''isLoading''
                    else JBool False))
             (\<lambda>s4. Inr (write_back state k s4))))))))
         = bind (bundleCase (JObj (stored_before_bundle sub data)) data)
             (\<lambda>s3. bind (set_field s3 ''isLoading''
                           (if truthy (member data ''isLoading'')
                            then member data ''isLoading'' else JBool False))
               (\<lambda>s4. Inr (obj_set state k s4)))"
proof -
  have sub: "obj_get state k = JObj sub"
    using assms(2) by (simp add: obj_get_def)
  have wb: "\<And>s. write_back state k s = obj_set state k s"
    using assms(2) by (simp add: write_back_def)
  show ?thesis
    using assms(1)
    by (simp add: sub wb get_prop_def opt_prop_def bind_Inr bind_Inl stored_before_bundle_def
        Let_def)
qed

lemma setPageData_steps:
  assumes "\<not> truthy ign" and "\<not> is_nullish ap" and "data = member ap ''data''"
    and "\<not> is_nullish data"
    and "k = prop_key (if truthy (member ap ''_queryType'') then member ap ''_queryType''
                       else member data ''_queryType'')"
    and "map_of state k = Some (JObj sub)"
  shows "setPageData ign state ap =
           bind (bundleCase (JObj (stored_before_bundle sub data)) data)
             (\<lambda>s3. bind (set_field s3 ''isLoading''
                           (if truthy (member data ''isLoading'')
                            then member data ''isLoading'' else JBool False))
               (\<lambda>s4. Inr (obj_set state k s4)))"
proof -
  have key: "bind (if truthy (member ap ''_queryType'') then Inr (member ap ''_queryType'')
                   else get_prop data ''_queryType'') f
             = f (if truthy (member ap ''_queryType'') then member ap ''_queryType''
                  else member data ''_queryType'')" for f :: "jsval \<Rightarrow> js_error + jsobj"
    using assms(4) by (simp add: get_prop_def bind_def)
  have "setPageData ign state ap =
      bind (if truthy (member ap ''_queryType'') then Inr (member ap ''_queryType'')
            else get_prop data ''_queryType'')
        (\<lambda>consolidateQueryType.
           let newState = obj_get state (prop_key consolidateQueryType) in
           bind (get_prop data ''errors'') (\<lambda>errors.
           bind (if truthy errors then set_field newState ''errors'' errors else Inr newState)
             (\<lambda>s1.
           bind (get_prop data ''page'') (\<lambda>page.
           bind (if truthy page then set_field s1 ''page'' page else Inr s1) (\<lambda>s2.
           bind (bundleCase s2 data) (\<lambda>s3.
           bind (set_field s3 ''isLoading''
                   (if truthy (opt_prop data ''isLoading'') then opt_prop data ''isLoading''
                    else JBool False))
             (\<lambda>s4. Inr (write_back state (prop_key consolidateQueryType) s4))))))))"
    unfolding setPageData_def assms(3)
    using assms(1,2) by (simp add: get_prop_def bind_Inr split del: if_split cong: if_cong)
  also have "\<dots> = bind (bundleCase (JObj (stored_before_bundle sub data)) data)
             (\<lambda>s3. bind (set_field s3 ''isLoading''
                           (if truthy (member data ''isLoading'')
                            then member data ''isLoading'' else JBool False))
               (\<lambda>s4. Inr (obj_set state k s4)))"
    unfolding key assms(5) [symmetric]
    using assms(4,6) by (rule setPageData_tail)
  finally show ?thesis .
qed

text \<open>
  Claim C9. \<^verbatim>\<open>setPageData\<close> with default reducers enabled, on a payload \<open>ap\<close> whose data is
  \<open>data\<close> and whose key (\<^verbatim>\<open>_queryType\<close> of the payload, else of the data) names an object
  sub-state: if the incoming page is absent or 1, or the incoming results is not an array,
  the reducer finishes, the sub-state's \<open>results\<close> is the incoming results value whatever
  was stored, and \<open>hasMore\<close> is true unless the incoming results is an array, in which case
  it tells whether the array is non-empty.
\<close>

theorem setPageData_replaces_results:
  assumes "\<not> truthy ign" and "\<not> is_nullish ap" and "data = member ap ''data''"
    and "\<not> is_nullish data"
    and "k = prop_key (if truthy (member ap ''_queryType'') then member ap ''_queryType''
                       else member data ''_queryType'')"
    and "map_of state k = Some (JObj sub)"
    and "member data ''page'' = JUndefined \<or> member data ''page'' = JNum 1
         \<or> \<not> is_array (member data ''results'')"
  shows "\<exists>state'. setPageData ign state ap = Inr state'
           \<and> member (obj_get state' k) ''results'' = member data ''results''
           \<and> member (obj_get state' k) ''hasMore'' =
               JBool (if is_array (member data ''results'')
                      then 0 < array_length (member data ''results'') else True)"
proof -
  have steps: "setPageData ign state ap =
      bind (bundleCase (JObj (stored_before_bundle sub data)) data)
        (\<lambda>s3. bind (set_field s3 ''isLoading''
                      (if truthy (member data ''isLoading'') then member data ''isLoading''
                       else JBool False))
          (\<lambda>s4. Inr (obj_set state k s4)))"
    using assms(1-6) by (rule setPageData_steps)
  show ?thesis
    unfolding steps bundleCase_replace [OF assms(4) assms(7)]
    by (simp add: bind_def obj_get_obj_set)
qed

theorem setPageData_replaces_results_witness:
  "setPageData JUndefined (users_state [item 1] True True (JNum 3) JNull)
     (page_data ''usersUsers'' [(''results'', JArr [item 2])])
   = Inr (users_state [item 2] False True (JNum 3) JNull)"
proof -
  let ?ap = "page_data ''usersUsers'' [(''results'', JArr [item 2])]"
  let ?st = "users_state [item 1] True True (JNum 3) JNull"
  have "\<exists>state'. setPageData JUndefined ?st ?ap = Inr state'
          \<and> member (obj_get state' ''usersUsers'') ''results''
              = member (JObj [(''results'', JArr [item 2])]) ''results''
          \<and> member (obj_get state' ''usersUsers'') ''hasMore''
              = JBool (if is_array (member (JObj [(''results'', JArr [item 2])]) ''results'')
                       then 0 < array_length (member (JObj [(''results'', JArr [item 2])]) ''results'')
                       else True)"
    by (rule setPageData_replaces_results
          [where sub = "[(''results'', JArr [item 1]), (''isLoading'', JBool True),
                         (''hasMore'', JBool True), (''page'', JNum 3), (''errors'', JNull)]"])
      (simp_all add: page_data_def users_state_def obj_get_def)
  then show ?thesis
    by (simp add: page_data_def users_state_def item_def setPageData_def bundleCase_def
        get_prop_def opt_prop_def obj_get_def strict_eq_def write_back_def bind_Inr bind_Inl)
qed

text \<open>
  When does \<^verbatim>\<open>setPageData\<close> finish? On an object sub-state whose stored \<open>results\<close> is an
  array it always does; the one way to throw there is to reach the append branch with
  stored \<open>results\<close> that cannot be spread (the envelope of a seed value \<^verbatim>\<open>null\<close>, say).
\<close>

lemma setPageData_finishes:
  assumes "\<not> truthy ign" and "\<not> is_nullish ap" and "data = member ap ''data''"
    and "\<not> is_nullish data"
    and "k = prop_key (if truthy (member ap ''_queryType'') then member ap ''_queryType''
                       else member data ''_queryType'')"
    and "map_of state k = Some (JObj sub)"
    and "obj_get sub ''results'' = JArr xs"
  shows "\<exists>state'. setPageData ign state ap = Inr state'"
proof -
  have steps: "setPageData ign state ap =
      bind (bundleCase (JObj (stored_before_bundle sub data)) data)
        (\<lambda>s3. bind (set_field s3 ''isLoading''
                      (if truthy (member data ''isLoading'') then member data ''isLoading''
                       else JBool False))
          (\<lambda>s4. Inr (obj_set state k s4)))"
    using assms(1-6) by (rule setPageData_steps)
  have res: "obj_get (stored_before_bundle sub data) ''results'' = JArr xs"
    using assms(7) by (simp add: stored_before_bundle_def Let_def obj_get_obj_set)
  have "\<exists>s3. bundleCase (JObj (stored_before_bundle sub data)) data = Inr (JObj s3)"
  proof (cases "member data ''page'' = JUndefined \<or> member data ''page'' = JNum 1
                \<or> \<not> is_array (member data ''results'')")
    case True
    then show ?thesis
      using bundleCase_replace [OF assms(4), of "stored_before_bundle sub data"] by simp
  next
    case False
    then obtain ys where ys: "member data ''results'' = JArr ys"
      by (cases "member data ''results''") auto
    show ?thesis
    proof (cases "truthy (member data ''page'')")
      case True
      with False show ?thesis
        using bundleCase_append [where data = data and sub = "stored_before_bundle sub data"
            and xs = xs and ys = ys] ys res
        by simp
    next
      case falsy: False
      then show ?thesis
        using assms(4)
        by (simp add: bundleCase_def get_prop_def opt_prop_def bind_Inr Let_def)
    qed
  qed
  then show ?thesis
    unfolding steps by (auto simp: bind_Inr)
qed

lemma setPageData_null_results_throws:
  "setPageData JUndefined
     [(''usersUser'', JObj [(''results'', JNull), (''isLoading'', JBool False),
                            (''hasMore'', JBool True), (''page'', JNum 0), (''errors'', JNull)])]
     (page_data ''usersUser'' [(''page'', JNum 2), (''results'', JArr [item 1])])
   = Inl TypeError"
  by (simp add: page_data_def item_def setPageData_def bundleCase_def get_prop_def opt_prop_def
      obj_get_def strict_eq_def bind_Inr bind_Inl)

text \<open>
  Claim C10. After a \<^verbatim>\<open>setPageData\<close> that finishes, with default reducers enabled, on a
  payload \<open>ap\<close> whose data is \<open>data\<close> and whose key names an object sub-state \<open>sub\<close>: the
  sub-state's \<open>isLoading\<close> is the data's \<open>isLoading\<close> when that is truthy and false
  otherwise; its \<open>errors\<close> and its \<open>page\<close> are the data's when those are truthy and the
  stored ones otherwise.
\<close>

theorem setPageData_isLoading_errors_page:
  assumes "\<not> truthy ign" and "\<not> is_nullish ap" and "data = member ap ''data''"
    and "\<not> is_nullish data"
    and "k = prop_key (if truthy (member ap ''_queryType'') then member ap ''_queryType''
                       else member data ''_queryType'')"
    and "map_of state k = Some (JObj sub)"
    and "setPageData ign state ap = Inr state'"
  shows "member (obj_get state' k) ''isLoading'' =
           (if truthy (member data ''isLoading'') then member data ''isLoading''
            else JBool False)
       \<and> member (obj_get state' k) ''errors'' =
           (if truthy (member data ''errors'') then member data ''errors''
            else obj_get sub ''errors'')
       \<and> member (obj_get state' k) ''page'' =
           (if truthy (member data ''page'') then member data ''page''
            else obj_get sub ''page'')"
proof -
  have steps: "setPageData ign state ap =
      bind (bundleCase (JObj (stored_before_bundle sub data)) data)
        (\<lambda>s3. bind (set_field s3 ''isLoading''
                      (if truthy (member data ''isLoading'') then member data ''isLoading''
                       else JBool False))
          (\<lambda>s4. Inr (obj_set state k s4)))"
    using assms(1-6) by (rule setPageData_steps)
  from assms(7) obtain s3 where
    b: "bundleCase (JObj (stored_before_bundle sub data)) data = Inr s3"
    unfolding steps by (auto simp: bind_def split: sum.splits)
  from bundleCase_fields [OF b] obtain r h where
    s3: "s3 = JObj (obj_set (obj_set (stored_before_bundle sub data) ''results'' r) ''hasMore'' h)"
    by blast
  from assms(7) have st': "state' = obj_set state k (JObj (obj_set
      (obj_set (obj_set (stored_before_bundle sub data) ''results'' r) ''hasMore'' h)
      ''isLoading''
      (if truthy (member data ''isLoading'') then member data ''isLoading'' else JBool False)))"
    unfolding steps b s3 by (simp add: bind_def)
  show ?thesis
    unfolding st' by (simp add: obj_get_obj_set stored_before_bundle_def Let_def)
qed

theorem setPageData_isLoading_errors_page_witness:
  "setPageData JUndefined (users_state [item 1] True True (JNum 1) (JStr ''stale''))
     (page_data ''usersUsers'' [(''page'', JNum 2), (''results'', JArr [item 2])])
   = Inr (users_state [item 1, item 2] False True (JNum 2) (JStr ''stale''))
   \<and> member (obj_get (users_state [item 1, item 2] False True (JNum 2) (JStr ''stale''))
        ''usersUsers'') ''isLoading'' = JBool False
   \<and> member (obj_get (users_state [item 1, item 2] False True (JNum 2) (JStr ''stale''))
        ''usersUsers'') ''errors'' = JStr ''stale''
   \<and> member (obj_get (users_state [item 1, item 2] False True (JNum 2) (JStr ''stale''))
        ''usersUsers'') ''page'' = JNum 2"
proof -
  let ?ap = "page_data ''usersUsers'' [(''page'', JNum 2), (''results'', JArr [item 2])]"
  let ?st = "users_state [item 1] True True (JNum 1) (JStr ''stale'')"
  let ?st' = "users_state [item 1, item 2] False True (JNum 2) (JStr ''stale'')"
  have run: "setPageData JUndefined ?st ?ap = Inr ?st'"
    by (simp add: page_data_def users_state_def item_def setPageData_def bundleCase_def
        get_prop_def opt_prop_def obj_get_def strict_eq_def write_back_def bind_Inr bind_Inl)
  have "member (obj_get ?st' ''usersUsers'') ''isLoading'' =
           (if truthy (member (JObj [(''page'', JNum 2), (''results'', JArr [item 2])]) ''isLoading'')
            then member (JObj [(''page'', JNum 2), (''results'', JArr [item 2])]) ''isLoading''
            else JBool False)
       \<and> member (obj_get ?st' ''usersUsers'') ''errors'' =
           (if truthy (member (JObj [(''page'', JNum 2), (''results'', JArr [item 2])]) ''errors'')
            then member (JObj [(''page'', JNum 2), (''results'', JArr [item 2])]) ''errors''
            else obj_get [(''results'', JArr [item 1]), (''isLoading'', JBool True),
                          (''hasMore'', JBool True), (''page'', JNum 1),
                          (''errors'', JStr ''stale'')] ''errors'')
       \<and> member (obj_get ?st' ''usersUsers'') ''page'' =
           (if truthy (member (JObj [(''page'', JNum 2), (''results'', JArr [item 2])]) ''page'')
            then member (JObj [(''page'', JNum 2), (''results'', JArr [item 2])]) ''page''
            else obj_get [(''results'', JArr [item 1]), (''isLoading'', JBool True),
                          (''hasMore'', JBool True), (''page'', JNum 1),
                          (''errors'', JStr ''stale'')] ''page'')"
    by (rule setPageData_isLoading_errors_page [OF _ _ _ _ _ _ run])
      (simp_all add: page_data_def users_state_def obj_get_def)
  with run show ?thesis
    by (simp add: obj_get_def)
qed

text \<open>
  \<^verbatim>\<open>setPageData\<close> stores the incoming page before it calls \<^verbatim>\<open>bundleCase\<close>. When the incoming
  page is a non-empty string, \<^verbatim>\<open>bundleCase\<close> therefore compares the incoming page with
  itself, takes the already-seen branch, and appends nothing, whatever token was stored.
\<close>

lemma setPageData_string_page_keeps_results:
  assumes "\<not> truthy ign" and "\<not> is_nullish ap" and "data = member ap ''data''"
    and "k = prop_key (if truthy (member ap ''_queryType'') then member ap ''_queryType''
                       else member data ''_queryType'')"
    and "map_of state k = Some (JObj sub)"
    and "member data ''page'' = JStr token" and "token \<noteq> []"
    and "member data ''results'' = JArr ys" and "obj_get sub ''results'' = JArr xs"
  shows "\<exists>state'. setPageData ign state ap = Inr state'
           \<and> member (obj_get state' k) ''results'' = JArr xs"
proof -
  from assms(6) have nn: "\<not> is_nullish data"
    by (cases data) simp_all
  have steps: "setPageData ign state ap =
      bind (bundleCase (JObj (stored_before_bundle sub data)) data)
        (\<lambda>s3. bind (set_field s3 ''isLoading''
                      (if truthy (member data ''isLoading'') then member data ''isLoading''
                       else JBool False))
          (\<lambda>s4. Inr (obj_set state k s4)))"
    using assms(1,2,3) nn assms(4,5) by (rule setPageData_steps)
  have page: "obj_get (stored_before_bundle sub data) ''page'' = JStr token"
    and res: "obj_get (stored_before_bundle sub data) ''results'' = JArr xs"
    using assms(6,7,9) by (simp_all add: stored_before_bundle_def Let_def obj_get_obj_set)
  have b: "bundleCase (JObj (stored_before_bundle sub data)) data =
      Inr (JObj (obj_set (obj_set (stored_before_bundle sub data) ''results'' (JArr xs))
             ''hasMore'' (JBool (ys \<noteq> []))))"
    using bundleCase_append [where data = data and sub = "stored_before_bundle sub data"
        and xs = xs and ys = ys] assms(6,7,8) res page
    by (simp add: strict_eq_def)
  show ?thesis
    unfolding steps b by (simp add: bind_Inr obj_get_obj_set)
qed

text \<open>
  Claim C3 (code bug). The stored page is the token \<^verbatim>\<open>abc\<close>, the incoming page is the
  different token \<^verbatim>\<open>def\<close>, the incoming results is an array: \<^verbatim>\<open>setPageData\<close> leaves
  \<open>results\<close> as it was and does not append the incoming item.
\<close>

theorem setPageData_new_token_not_appended:
  "setPageData JUndefined (users_state [item 1] False True (JStr ''abc'') JNull)
     (page_data ''usersUsers'' [(''page'', JStr ''def''), (''results'', JArr [item 2])])
   = Inr (users_state [item 1] False True (JStr ''def'') JNull)"
  by (simp add: page_data_def users_state_def item_def setPageData_def bundleCase_def
      get_prop_def opt_prop_def obj_get_def strict_eq_def write_back_def bind_Inr bind_Inl)

end
